theory Spec2Isabelle
  imports Main "HOL-Library.AList" "HOL-Library.Sublist"
begin

section \<open>Python text primitives\<close>

text \<open>
  A Python \<open>str\<close> is modelled as a \<open>string\<close> whose characters are the code points
  0..255. On that range \<open>str.isspace\<close> (which is also what the regular expression
  class \<open>\s\<close> and \<open>str.strip()\<close> use) holds for TAB..CR, FS..US, the space, NEL and
  NBSP; the class \<open>\d\<close> holds for the ten ASCII digits only; \<open>str.lower\<close> shifts
  A..Z and the accented capitals 192..222 (without the multiplication sign 215) by 32.
\<close>

definition isspace :: "char \<Rightarrow> bool" where
  "isspace c = (let n = (of_char c :: nat) in
     (9 \<le> n \<and> n \<le> 13) \<or> (28 \<le> n \<and> n \<le> 32) \<or> n = 133 \<or> n = 160)"

definition isdigit :: "char \<Rightarrow> bool" where
  "isdigit c = (let n = (of_char c :: nat) in 48 \<le> n \<and> n \<le> 57)"

definition lower_char :: "char \<Rightarrow> char" where
  "lower_char c = (let n = (of_char c :: nat) in
     if (65 \<le> n \<and> n \<le> 90) \<or> (192 \<le> n \<and> n \<le> 222 \<and> n \<noteq> 215)
     then char_of (n + 32) else c)"

definition str_lower :: "string \<Rightarrow> string" where
  "str_lower s = map lower_char s"

definition str_strip :: "string \<Rightarrow> string" where
  "str_strip s = rev (dropWhile isspace (rev (dropWhile isspace s)))"

text \<open>\<open>str(n)\<close> for an integer: decimal digits, a minus sign when negative.\<close>

fun str_nat :: "nat \<Rightarrow> string" where
  "str_nat n = (if n < 10 then [char_of (48 + n)]
                else str_nat (n div 10) @ [char_of (48 + n mod 10)])"

declare str_nat.simps [simp del]

definition str_int :: "int \<Rightarrow> string" where
  "str_int i = (if i < 0 then CHR ''-'' # str_nat (nat (- i)) else str_nat (nat i))"

text \<open>The format \<open>%0wd\<close>: decimal, padded with zeros on the left to width \<open>w\<close>.\<close>

definition zero_pad :: "nat \<Rightarrow> nat \<Rightarrow> string" where
  "zero_pad w n = replicate (w - length (str_nat n)) CHR ''0'' @ str_nat n"

text \<open>\<open>sub in s\<close> on strings: \<open>sub\<close> occurs in \<open>s\<close> as a contiguous run.\<close>

fun str_contains :: "string \<Rightarrow> string \<Rightarrow> bool" where
  "str_contains sub [] = (sub = [])"
| "str_contains sub (c # cs) = (prefix sub (c # cs) \<or> str_contains sub cs)"

text \<open>\<open>sep.join(xs)\<close>.\<close>

fun str_join :: "string \<Rightarrow> string list \<Rightarrow> string" where
  "str_join sep [] = []"
| "str_join sep [x] = x"
| "str_join sep (x # y # ys) = x @ sep @ str_join sep (y # ys)"

text \<open>
  \<open>re.sub(cls+, '', text)\<close> for a character class \<open>cls\<close>: scanning from the left, a
  character outside the class is kept, and a character inside it starts a match that
  greedily takes the whole run of class characters, which is replaced by nothing.
\<close>

function re_sub_runs :: "(char \<Rightarrow> bool) \<Rightarrow> string \<Rightarrow> string" where
  "re_sub_runs cls [] = []"
| "re_sub_runs cls (c # cs) =
     (if cls c then re_sub_runs cls (dropWhile cls cs) else c # re_sub_runs cls cs)"
  by pat_completeness auto
termination
  by (relation "measure (\<lambda>(cls, s). length s)")
     (auto simp: le_imp_less_Suc length_dropWhile_le)

section \<open>Exceptions and diagnostics\<close>

text \<open>
  The subclasses of \<open>Exception\<close> that the two functions can meet. \<open>Raised msg\<close> stands
  for any exception raised inside a library call (reading the workbook, the HTTP
  request, parsing the feed, expanding recurrences). A call of \<open>st.error\<close> is recorded
  as a diagnostic: the prefix of its message and the exception formatted into it.
\<close>

datatype exn = KeyError | AttributeError | OverflowError | HTTPError nat | Raised string

datatype diag = St_error string exn

section \<open>The roster sheet\<close>

text \<open>
  A cell of the data frame read with \<open>header=None\<close>. \<open>CDatetime\<close> is a naive
  \<open>datetime.datetime\<close> (or pandas \<open>Timestamp\<close>), \<open>CNaT\<close> is \<open>pandas.NaT\<close>, which is
  an instance of \<open>datetime.datetime\<close> too, \<open>CNaN\<close> is the float NaN of an empty
  cell. A float that is not NaN is carried as the text \<open>str\<close> gives for it (for
  instance \<open>0.0\<close>), since only that text is ever looked at.
\<close>

record pydatetime =
  year :: nat
  month :: nat
  day :: nat
  hour :: nat
  minute :: nat
  second :: nat
  microsecond :: nat

datatype cell =
    CStr string
  | CInt int
  | CFloat string
  | CBool bool
  | CDatetime pydatetime
  | CNaN
  | CNaT
  | CNone

definition midnight :: "nat \<Rightarrow> nat \<Rightarrow> nat \<Rightarrow> pydatetime" where
  "midnight y m d =
     \<lparr>year = y, month = m, day = d, hour = 0, minute = 0, second = 0, microsecond = 0\<rparr>"

text \<open>\<open>datetime.__str__\<close>: ISO format with a space between date and time.\<close>

definition str_datetime :: "pydatetime \<Rightarrow> string" where
  "str_datetime t =
     zero_pad 4 (year t) @ ''-'' @ zero_pad 2 (month t) @ ''-'' @ zero_pad 2 (day t) @ '' '' @
     zero_pad 2 (hour t) @ '':'' @ zero_pad 2 (minute t) @ '':'' @ zero_pad 2 (second t) @
     (if microsecond t = 0 then [] else ''.'' @ zero_pad 6 (microsecond t))"

fun str_cell :: "cell \<Rightarrow> string" where
  "str_cell (CStr s) = s"
| "str_cell (CInt i) = str_int i"
| "str_cell (CFloat s) = s"
| "str_cell (CBool b) = (if b then ''True'' else ''False'')"
| "str_cell (CDatetime t) = str_datetime t"
| "str_cell CNaN = ''nan''"
| "str_cell CNaT = ''NaT''"
| "str_cell CNone = ''None''"

text \<open>\<open>isinstance(v, datetime.datetime)\<close> and \<open>pd.notna(v)\<close> on a cell.\<close>

fun is_datetime :: "cell \<Rightarrow> bool" where
  "is_datetime (CDatetime t) = True"
| "is_datetime CNaT = True"
| "is_datetime v = False"

fun notna :: "cell \<Rightarrow> bool" where
  "notna CNaN = False"
| "notna CNaT = False"
| "notna CNone = False"
| "notna v = True"

text \<open>
  \<open>row[i]\<close> on a row of the frame looks the label \<open>i\<close> up; the labels are
  \<open>0..len(row)-1\<close>, and a missing label raises \<open>KeyError\<close>.
\<close>

definition row_get :: "cell list \<Rightarrow> nat \<Rightarrow> exn + cell" where
  "row_get row i = (if i < length row then Inr (row ! i) else Inl KeyError)"

record leave_entry =
  Date :: cell
  Original_Type :: string
  Type :: string

type_synonym block = "(nat \<times> cell) list"

subsection \<open>\<open>clean_leave_type\<close>\<close>

text \<open>The argument is always a \<open>str\<close> at the only call site, so \<open>str(text)\<close> is not needed.\<close>

definition clean_leave_type :: "string \<Rightarrow> string" where
  "clean_leave_type text = re_sub_runs (\<lambda>c. isspace c \<or> isdigit c) text"

subsection \<open>\<open>extract_holidays\<close>\<close>

text \<open>
  The inner loop of an anchor row, \<open>for col_idx in range(2, len(row))\<close>: a dictionary
  keeps its keys in insertion order, and storing under a key that is present replaces
  the value in place, which is \<open>AList.update\<close> on an association list.
\<close>

fun anchor_cols :: "cell list \<Rightarrow> nat list \<Rightarrow> block \<Rightarrow> exn + block" where
  "anchor_cols row [] blk = Inr blk"
| "anchor_cols row (col_idx # rest) blk =
     (case row_get row col_idx of
        Inl e \<Rightarrow> Inl e
      | Inr cell_value \<Rightarrow>
          anchor_cols row rest
            (if is_datetime cell_value then AList.update col_idx cell_value blk else blk))"

definition placeholders :: "string list" where
  "placeholders = ['''', ''0'', ''nan'', ''None'', ''0.0'']"

text \<open>The inner loop of a name row, \<open>for col_idx, date_val in current_block_dates.items()\<close>.\<close>

fun block_items :: "cell list \<Rightarrow> block \<Rightarrow> leave_entry list \<Rightarrow> exn + leave_entry list" where
  "block_items row [] booked = Inr booked"
| "block_items row ((col_idx, date_val) # rest) booked =
     (if col_idx < length row then
        (case row_get row col_idx of
           Inl e \<Rightarrow> Inl e
         | Inr leave_code \<Rightarrow>
             (let code_str = str_strip (str_cell leave_code) in
              block_items row rest
                (if notna leave_code \<and> code_str \<notin> set placeholders
                 then booked @ [\<lparr>Date = date_val, Original_Type = code_str,
                                 Type = clean_leave_type code_str\<rparr>]
                 else booked)))
      else block_items row rest booked)"

text \<open>One pass of the body of \<open>for index, row in df.iterrows()\<close>.\<close>

definition process_row ::
  "string \<Rightarrow> block \<times> leave_entry list \<Rightarrow> cell list \<Rightarrow> exn + block \<times> leave_entry list" where
  "process_row target_name st row =
     (case st of (current_block_dates, booked) \<Rightarrow>
        if length row < 3 then Inr st
        else
          (case row_get row 1 of
             Inl e \<Rightarrow> Inl e
           | Inr col_b_val \<Rightarrow>
               (case row_get row 2 of
                  Inl e \<Rightarrow> Inl e
                | Inr col_c_val \<Rightarrow>
                    if is_datetime col_c_val then
                      (case anchor_cols row [2..<length row] [] of
                         Inl e \<Rightarrow> Inl e
                       | Inr blk \<Rightarrow> Inr (blk, booked))
                    else if current_block_dates \<noteq> [] \<and>
                            str_lower (str_strip (str_cell col_b_val)) =
                            str_lower (str_strip target_name) then
                      (case block_items row current_block_dates booked of
                         Inl e \<Rightarrow> Inl e
                       | Inr booked' \<Rightarrow> Inr (current_block_dates, booked'))
                    else Inr st)))"

fun iterrows ::
  "string \<Rightarrow> block \<times> leave_entry list \<Rightarrow> cell list list \<Rightarrow> exn + block \<times> leave_entry list" where
  "iterrows target_name st [] = Inr st"
| "iterrows target_name st (row # rows) =
     (case process_row target_name st row of
        Inl e \<Rightarrow> Inl e
      | Inr st' \<Rightarrow> iterrows target_name st' rows)"

text \<open>
  \<open>extract_holidays\<close>. The first argument is what \<open>pd.read_excel(file, header=None)\<close>
  gives: the rows of the frame, or the exception it raised. A failure of the read is
  caught and reported; the loop over the rows stands outside the \<open>try\<close>, so an
  exception in it would reach the caller (\<open>Inl\<close>).
\<close>

definition extract_holidays ::
  "exn + cell list list \<Rightarrow> string \<Rightarrow> exn + diag list \<times> leave_entry list" where
  "extract_holidays file target_name =
     (case file of
        Inl e \<Rightarrow> Inr ([St_error ''Error reading Excel: '' e], [])
      | Inr df \<Rightarrow>
          (case iterrows target_name ([], []) df of
             Inl e \<Rightarrow> Inl e
           | Inr (current_block_dates, my_booked_dates) \<Rightarrow> Inr ([], my_booked_dates)))"

section \<open>The calendar feed\<close>

text \<open>
  A \<open>datetime.date\<close> is its proleptic Gregorian ordinal (\<open>date.toordinal()\<close>), so that
  adding a day is adding 1 and the comparison of dates is that of integers.
  \<open>date_of y m d\<close> is the ordinal of \<open>date(y, m, d)\<close>, as the standard library computes
  it; \<open>date.max\<close> is 9999-12-31, and a sum beyond it raises \<open>OverflowError\<close>.
\<close>

type_synonym date = int

definition is_leap :: "nat \<Rightarrow> bool" where
  "is_leap y = (y mod 4 = 0 \<and> (y mod 100 \<noteq> 0 \<or> y mod 400 = 0))"

definition days_before_year :: "nat \<Rightarrow> nat" where
  "days_before_year y = (y - 1) * 365 + (y - 1) div 4 - (y - 1) div 100 + (y - 1) div 400"

definition days_before_month :: "nat \<Rightarrow> nat \<Rightarrow> nat" where
  "days_before_month y m =
     [0, 0, 31, 59, 90, 120, 151, 181, 212, 243, 273, 304, 334] ! m +
     (if 2 < m \<and> is_leap y then 1 else 0)"

definition date_of :: "nat \<Rightarrow> nat \<Rightarrow> nat \<Rightarrow> date" where
  "date_of y m d = int (days_before_year y + days_before_month y m + d)"

definition date_max :: date where
  "date_max = 3652059"

definition add_one_day :: "date \<Rightarrow> exn + date" where
  "add_one_day d = (if date_max < d + 1 then Inl OverflowError else Inr (d + 1))"

text \<open>
  The value \<open>.dt\<close> of a \<open>DTSTART\<close> or \<open>DTEND\<close> property: a \<open>date\<close>, or a \<open>datetime\<close>
  given by its date and its time of day (in microseconds); \<open>to_date\<close> is the branch
  on \<open>isinstance(dt, datetime.datetime)\<close> that takes \<open>dt.date()\<close>.
\<close>

datatype dt = DDate date | DDatetime date nat

fun to_date :: "dt \<Rightarrow> date" where
  "to_date (DDatetime d t) = d"
| "to_date (DDate d) = d"

record event =
  SUMMARY :: "string option"
  DTSTART :: "dt option"
  DTEND :: "dt option"

text \<open>\<open>str(event.get('SUMMARY', 'Busy'))\<close>.\<close>

definition event_summary :: "event \<Rightarrow> string" where
  "event_summary ev = (case SUMMARY ev of None \<Rightarrow> ''Busy'' | Some s \<Rightarrow> s)"

text \<open>
  The start and the end of an event, as the loop body resolves them. A missing
  \<open>DTSTART\<close> makes \<open>event.get('DTSTART').dt\<close> an attribute access on \<open>None\<close>.
\<close>

definition event_span :: "event \<Rightarrow> exn + date \<times> date" where
  "event_span ev =
     (case DTSTART ev of
        None \<Rightarrow> Inl AttributeError
      | Some dt_start \<Rightarrow>
          (let start_date = to_date dt_start in
           (case (case DTEND ev of
                    Some dt_end \<Rightarrow> Inr (to_date dt_end)
                  | None \<Rightarrow> add_one_day start_date) of
              Inl e \<Rightarrow> Inl e
            | Inr end_date \<Rightarrow>
                if start_date = end_date then
                  (case add_one_day start_date of
                     Inl e \<Rightarrow> Inl e
                   | Inr end_date' \<Rightarrow> Inr (start_date, end_date'))
                else Inr (start_date, end_date))))"

type_synonym events_map = "(date \<times> string list) list"

text \<open>The body of the \<open>while\<close> loop without the step: the summary goes into the day's bucket.\<close>

definition add_summary :: "events_map \<Rightarrow> date \<Rightarrow> string \<Rightarrow> events_map" where
  "add_summary events_map current_curr summary =
     (case map_of events_map current_curr of
        Some bucket \<Rightarrow>
          if summary \<notin> set bucket
          then AList.update current_curr (bucket @ [summary]) events_map
          else events_map
      | None \<Rightarrow> AList.update current_curr [summary] events_map)"

function day_loop :: "string \<Rightarrow> date \<Rightarrow> date \<Rightarrow> events_map \<Rightarrow> exn + events_map" where
  "day_loop summary end_date current_curr events_map =
     (if current_curr < end_date then
        (case add_one_day current_curr of
           Inl e \<Rightarrow> Inl e
         | Inr next_curr \<Rightarrow>
             day_loop summary end_date next_curr (add_summary events_map current_curr summary))
      else Inr events_map)"
  by pat_completeness auto
termination
  by (relation "measure (\<lambda>(summary, end_date, current_curr, events_map).
        nat (end_date - current_curr))")
     (auto simp: add_one_day_def split: if_splits)

declare day_loop.simps [simp del]

definition process_event :: "events_map \<Rightarrow> event \<Rightarrow> exn + events_map" where
  "process_event events_map ev =
     (let summary = event_summary ev in
      (case event_span ev of
         Inl e \<Rightarrow> Inl e
       | Inr (start_date, end_date) \<Rightarrow> day_loop summary end_date start_date events_map))"

fun events_loop :: "events_map \<Rightarrow> event list \<Rightarrow> exn + events_map" where
  "events_loop events_map [] = Inr events_map"
| "events_loop events_map (ev # events) =
     (case process_event events_map ev of
        Inl e \<Rightarrow> Inl e
      | Inr events_map' \<Rightarrow> events_loop events_map' events)"

text \<open>The 'AL ref' filter: the display text of one day's bucket.\<close>

definition display_text :: "string list \<Rightarrow> string" where
  "display_text summary_list =
     (let al_ref_events = filter (\<lambda>s. str_contains ''al ref'' (str_lower s)) summary_list in
      if al_ref_events \<noteq> [] then str_join ''; '' al_ref_events
      else str_join ''; '' summary_list)"

fun final_loop :: "events_map \<Rightarrow> (date \<times> string) list \<Rightarrow> (date \<times> string) list" where
  "final_loop [] final_map = final_map"
| "final_loop ((date_key, summary_list) # rest) final_map =
     final_loop rest (AList.update date_key (display_text summary_list) final_map)"

text \<open>
  The library calls are parameters: \<open>requests_get\<close> is \<open>requests.get(url)\<close>,
  \<open>from_ical\<close> is \<open>icalendar.Calendar.from_ical\<close>, and \<open>between cal a b\<close> is
  \<open>recurring_ical_events.of(cal).between(a, b)\<close>, the list of event occurrences the
  recurrence expansion returns for the window. Each may raise.
\<close>

record response =
  status_code :: nat
  content :: string

definition raise_for_status :: "response \<Rightarrow> exn + unit" where
  "raise_for_status r =
     (if 400 \<le> status_code r \<and> status_code r < 600 then Inl (HTTPError (status_code r))
      else Inr ())"

record 'cal collaborators =
  requests_get :: "string \<Rightarrow> exn + response"
  from_ical :: "string \<Rightarrow> exn + 'cal"
  between :: "'cal \<Rightarrow> date \<Rightarrow> date \<Rightarrow> exn + event list"

definition load_events ::
  "'cal collaborators \<Rightarrow> string \<Rightarrow> date \<Rightarrow> date \<Rightarrow> exn + event list" where
  "load_events env url start_range end_range =
     (case requests_get env url of
        Inl e \<Rightarrow> Inl e
      | Inr response \<Rightarrow>
          (case raise_for_status response of
             Inl e \<Rightarrow> Inl e
           | Inr u \<Rightarrow>
               (case from_ical env (content response) of
                  Inl e \<Rightarrow> Inl e
                | Inr calendar \<Rightarrow> between env calendar start_range end_range)))"

text \<open>The body of the \<open>try\<close> block.\<close>

definition fetch_body ::
  "'cal collaborators \<Rightarrow> string \<Rightarrow> date \<Rightarrow> date \<Rightarrow> exn + (date \<times> string) list" where
  "fetch_body env url start_range end_range =
     (case load_events env url start_range end_range of
        Inl e \<Rightarrow> Inl e
      | Inr events \<Rightarrow>
          (case events_loop [] events of
             Inl e \<Rightarrow> Inl e
           | Inr events_map \<Rightarrow> Inr (final_loop events_map [])))"

text \<open>
  \<open>fetch_google_events\<close>: the diagnostics it reports and the map it returns. There is
  no exception in the result: \<open>except Exception\<close> catches whatever the body raises.
\<close>

definition fetch_google_events ::
  "'cal collaborators \<Rightarrow> string \<Rightarrow> date \<Rightarrow> date \<Rightarrow> diag list \<times> (date \<times> string) list" where
  "fetch_google_events env url start_range end_range =
     (if url = [] then ([], [])
      else
        (case fetch_body env url start_range end_range of
           Inl e \<Rightarrow> ([St_error ''Could not load Google Calendar: '' e], [])
         | Inr final_map \<Rightarrow> ([], final_map)))"

text \<open>
  A feed for examples: the request answers 200, the parse succeeds, and the expansion
  returns those of the given occurrences whose span meets the window, the occurrences
  without a start included.
\<close>

definition meets_window :: "date \<Rightarrow> date \<Rightarrow> event \<Rightarrow> bool" where
  "meets_window a b ev =
     (case event_span ev of Inl e \<Rightarrow> True | Inr (s, e) \<Rightarrow> s \<le> b \<and> a < e)"

definition sample_feed :: "event list \<Rightarrow> unit collaborators" where
  "sample_feed occurrences =
     \<lparr>requests_get = (\<lambda>url. Inr \<lparr>status_code = 200, content = ''BEGIN:VCALENDAR''\<rparr>),
      from_ical = (\<lambda>text. Inr ()),
      between = (\<lambda>cal a b. Inr (filter (meets_window a b) occurrences))\<rparr>"

section \<open>The roster loops as list functions\<close>

text \<open>
  The readings below say what each loop computes, without the exceptions; the lemmas
  after them show that the loops compute exactly that and never take an error branch.
\<close>

definition date_cells :: "cell list \<Rightarrow> nat list \<Rightarrow> block" where
  "date_cells row cols = map (\<lambda>i. (i, row ! i)) (filter (\<lambda>i. is_datetime (row ! i)) cols)"

definition keeps :: "cell list \<Rightarrow> nat \<times> cell \<Rightarrow> bool" where
  "keeps row p =
     (fst p < length row \<and> notna (row ! fst p) \<and>
      str_strip (str_cell (row ! fst p)) \<notin> set placeholders)"

definition entry_of :: "cell list \<Rightarrow> nat \<times> cell \<Rightarrow> leave_entry" where
  "entry_of row p =
     \<lparr>Date = snd p, Original_Type = str_strip (str_cell (row ! fst p)),
      Type = clean_leave_type (str_strip (str_cell (row ! fst p)))\<rparr>"

definition is_anchor :: "cell list \<Rightarrow> bool" where
  "is_anchor row = (3 \<le> length row \<and> is_datetime (row ! 2))"

definition name_matches :: "string \<Rightarrow> cell list \<Rightarrow> bool" where
  "name_matches target_name row =
     (str_lower (str_strip (str_cell (row ! 1))) = str_lower (str_strip target_name))"

definition row_step ::
  "string \<Rightarrow> block \<times> leave_entry list \<Rightarrow> cell list \<Rightarrow> block \<times> leave_entry list" where
  "row_step target_name st row =
     (if length row < 3 then st
      else if is_datetime (row ! 2) then (date_cells row [2..<length row], snd st)
      else if fst st \<noteq> [] \<and> name_matches target_name row
      then (fst st, snd st @ map (entry_of row) (filter (keeps row) (fst st)))
      else st)"

text \<open>
  The order in which the caller sorts the entries: naive datetimes compare as the tuples
  of their fields, and \<open>sort_values\<close> puts \<open>NaT\<close> last.
\<close>

fun lex_le :: "nat list \<Rightarrow> nat list \<Rightarrow> bool" where
  "lex_le [] ys = True"
| "lex_le (x # xs) [] = False"
| "lex_le (x # xs) (y # ys) = (x < y \<or> (x = y \<and> lex_le xs ys))"

definition datetime_le :: "pydatetime \<Rightarrow> pydatetime \<Rightarrow> bool" where
  "datetime_le a b =
     lex_le [year a, month a, day a, hour a, minute a, second a, microsecond a]
            [year b, month b, day b, hour b, minute b, second b, microsecond b]"

fun date_le :: "cell \<Rightarrow> cell \<Rightarrow> bool" where
  "date_le (CDatetime a) (CDatetime b) = datetime_le a b"
| "date_le v CNaT = True"
| "date_le v w = False"

definition sorted_by_date :: "leave_entry list \<Rightarrow> bool" where
  "sorted_by_date entries = sorted_wrt (\<lambda>a b. date_le (Date a) (Date b)) entries"

section \<open>The calendar loops as list functions\<close>

text \<open>
  \<open>put\<close> is the bucket of a day after a summary has been offered to it; \<open>bucket\<close>
  reads a day's bucket, empty when the day has no key; \<open>covers\<close> says that a day lies
  in the span of an event, start included and end excluded.
\<close>

definition put :: "string \<Rightarrow> string list option \<Rightarrow> string list" where
  "put summary b =
     (case b of
        None \<Rightarrow> [summary]
      | Some bucket \<Rightarrow> if summary \<in> set bucket then bucket else bucket @ [summary])"

definition bucket :: "events_map \<Rightarrow> date \<Rightarrow> string list" where
  "bucket events_map d = (case map_of events_map d of None \<Rightarrow> [] | Some b \<Rightarrow> b)"

definition covers :: "event \<Rightarrow> date \<Rightarrow> bool" where
  "covers ev d = (case event_span ev of Inl e \<Rightarrow> False | Inr (s, e) \<Rightarrow> s \<le> d \<and> d < e)"

definition tidy :: "events_map \<Rightarrow> bool" where
  "tidy events_map =
     (distinct (map fst events_map) \<and>
      (\<forall>d b. map_of events_map d = Some b \<longrightarrow> b \<noteq> [] \<and> distinct b))"

section \<open>Facts about the roster\<close>

lemma re_sub_runs_filter: "re_sub_runs cls s = filter (\<lambda>c. \<not> cls c) s"
proof (induction cls s rule: re_sub_runs.induct)
  case (1 cls)
  show ?case by simp
next
  case (2 cls c cs)
  have drop: "filter (\<lambda>c. \<not> cls c) (dropWhile cls cs) = filter (\<lambda>c. \<not> cls c) cs"
    by (induction cs) auto
  show ?case
  proof (cases "cls c")
    case True
    with "2.IH"(1) drop show ?thesis by simp
  next
    case False
    with "2.IH"(2) show ?thesis by simp
  qed
qed

lemma row_get_inside: "i < length row \<Longrightarrow> row_get row i = Inr (row ! i)"
  by (simp add: row_get_def)

lemma update_fresh: "k \<notin> fst ` set al \<Longrightarrow> AList.update k v al = al @ [(k, v)]"
  by (induction al) auto

lemma fst_date_cells: "fst ` set (date_cells row cols) \<subseteq> set cols"
  by (auto simp: date_cells_def)

lemma anchor_cols_eq:
  assumes "\<forall>i\<in>set cols. i < length row" and "distinct cols"
    and "\<forall>i\<in>set cols. i \<notin> fst ` set blk"
  shows "anchor_cols row cols blk = Inr (blk @ date_cells row cols)"
  using assms
proof (induction cols arbitrary: blk)
  case Nil
  show ?case by (simp add: date_cells_def)
next
  case (Cons c cols)
  have get: "row_get row c = Inr (row ! c)"
    using Cons.prems(1) by (simp add: row_get_inside)
  have fresh: "c \<notin> fst ` set blk"
    using Cons.prems(3) by simp
  let ?blk = "if is_datetime (row ! c) then AList.update c (row ! c) blk else blk"
  have blk': "?blk = blk @ date_cells row [c]"
    using fresh by (simp add: update_fresh date_cells_def)
  have "\<forall>i\<in>set cols. i \<notin> fst ` set ?blk"
    using Cons.prems(2,3) by (auto simp: update_fresh [OF fresh])
  with Cons.IH [of ?blk] Cons.prems
  have "anchor_cols row cols ?blk = Inr (?blk @ date_cells row cols)"
    by simp
  with get blk' show ?case
    by (simp add: date_cells_def)
qed

lemma anchor_cols_row: "anchor_cols row [2..<length row] [] = Inr (date_cells row [2..<length row])"
  using anchor_cols_eq [of "[2..<length row]" row "[]"] by simp

lemma block_items_eq:
  "block_items row blk booked = Inr (booked @ map (entry_of row) (filter (keeps row) blk))"
proof (induction blk arbitrary: booked)
  case Nil
  show ?case by simp
next
  case (Cons p blk)
  obtain c d where p: "p = (c, d)" by (cases p)
  show ?case
  proof (cases "c < length row")
    case True
    then show ?thesis
      using Cons.IH by (simp add: p row_get_inside keeps_def entry_of_def Let_def)
  next
    case False
    then show ?thesis
      using Cons.IH by (simp add: p keeps_def)
  qed
qed

lemma process_row_eq: "process_row target_name st row = Inr (row_step target_name st row)"
proof (cases st)
  case (Pair blk booked)
  show ?thesis
  proof (cases "length row < 3")
    case True
    then show ?thesis by (simp add: process_row_def row_step_def Pair)
  next
    case False
    then have "1 < length row" "2 < length row" by simp_all
    then show ?thesis
      using False
      by (simp add: process_row_def row_step_def Pair row_get_inside anchor_cols_row
          block_items_eq name_matches_def)
  qed
qed

lemma iterrows_eq: "iterrows target_name st rows = Inr (foldl (row_step target_name) st rows)"
  by (induction rows arbitrary: st) (simp_all add: process_row_eq)

lemma extract_holidays_eq:
  "extract_holidays (Inr rows) target_name =
     Inr ([], snd (foldl (row_step target_name) ([], []) rows))"
  by (simp add: extract_holidays_def iterrows_eq split: prod.splits)

lemma map_of_date_cells:
  "distinct cols \<Longrightarrow>
   map_of (date_cells row cols) i = (if i \<in> set cols \<and> is_datetime (row ! i) then Some (row ! i) else None)"
  by (induction cols) (auto simp: date_cells_def)

text \<open>Rows that are no anchor rows leave the block alone and only append entries of it.\<close>

lemma row_step_no_anchor:
  assumes "\<not> is_anchor row"
  shows "\<exists>new. row_step target_name (blk, booked) row = (blk, booked @ new) \<and>
               set (map Date new) \<subseteq> snd ` set blk"
proof -
  have "set (map Date (map (entry_of row) (filter (keeps row) blk))) \<subseteq> snd ` set blk"
    by (auto simp: entry_of_def)
  then show ?thesis
    using assms by (auto simp: row_step_def is_anchor_def)
qed

lemma foldl_no_anchor:
  assumes "\<forall>r\<in>set rows. \<not> is_anchor r"
  shows "\<exists>new. foldl (row_step target_name) (blk, booked) rows = (blk, booked @ new) \<and>
               set (map Date new) \<subseteq> snd ` set blk"
  using assms
proof (induction rows arbitrary: booked)
  case Nil
  show ?case by simp
next
  case (Cons r rows)
  from Cons.prems have "\<not> is_anchor r" by simp
  from row_step_no_anchor [OF this, of target_name blk booked]
  obtain n1 where n1: "row_step target_name (blk, booked) r = (blk, booked @ n1)"
    "set (map Date n1) \<subseteq> snd ` set blk" by blast
  from Cons.IH [of "booked @ n1"] Cons.prems
  obtain n2 where n2: "foldl (row_step target_name) (blk, booked @ n1) rows = (blk, (booked @ n1) @ n2)"
    "set (map Date n2) \<subseteq> snd ` set blk" by auto
  show ?case
  proof (intro exI conjI)
    show "foldl (row_step target_name) (blk, booked) (r # rows) = (blk, booked @ (n1 @ n2))"
      using n1(1) n2(1) by simp
    show "set (map Date (n1 @ n2)) \<subseteq> snd ` set blk"
      using n1(2) n2(2) by auto
  qed
qed

text \<open>Every row only appends to the entries booked so far.\<close>

lemma row_step_appends:
  "\<exists>new. snd (row_step target_name (blk, booked) row) = booked @ new \<and>
         subseq (map Date new) (map snd blk)"
proof -
  have "subseq (map Date (map (entry_of row) (filter (keeps row) blk))) (map snd blk)"
  proof -
    have "map Date (map (entry_of row) (filter (keeps row) blk)) = map snd (filter (keeps row) blk)"
      by (induction blk) (simp_all add: entry_of_def)
    moreover have "subseq (map snd (filter (keeps row) blk)) (map snd blk)"
      by (rule subseq_map) simp
    ultimately show ?thesis
      by (simp only:)
  qed
  then show ?thesis
    by (auto simp: row_step_def)
qed

lemma foldl_appends:
  "\<exists>new. snd (foldl (row_step target_name) (blk, booked) rows) = booked @ new"
proof (induction rows arbitrary: blk booked)
  case Nil
  show ?case by simp
next
  case (Cons r rows)
  obtain blk1 bk1 where st: "row_step target_name (blk, booked) r = (blk1, bk1)"
    by (cases "row_step target_name (blk, booked) r")
  from row_step_appends [of target_name blk booked r] st
  obtain n1 where n1: "bk1 = booked @ n1" by auto
  from Cons.IH [of blk1 bk1] obtain n2
    where "snd (foldl (row_step target_name) (blk1, bk1) rows) = bk1 @ n2" by blast
  with st n1 show ?case by simp
qed

lemma eq_char_of_iff: "c = char_of (n::nat) \<longleftrightarrow> take_bit 8 n = of_char c"
  using char_of_eq_iff [of n c] by auto

lemmas roster_eval =
  extract_holidays_def process_row_def row_get_def placeholders_def clean_leave_type_def
  re_sub_runs_filter str_lower_def str_strip_def isspace_def isdigit_def lower_char_def
  char_of_eq_iff eq_char_of_iff upt_rec Let_def

text \<open>
  Claim C1. The grid made of an anchor row with the dates 2024-01-01 and 2024-01-02 in
  columns 2 and 3 (whatever its first two cells hold) and the data row
  \<open>["", "Smith, John", "AL1", "0"]\<close> yields, for the name \<open>Smith, John\<close>, exactly one
  entry: the date 2024-01-01, the original code \<open>AL1\<close> and the type \<open>AL\<close>; the cell
  \<open>0\<close> yields none. The normalised type of any text is that text without its
  whitespace and digit characters.
\<close>

theorem roster_scenario:
  "extract_holidays
     (Inr [[x, y, CDatetime (midnight 2024 1 1), CDatetime (midnight 2024 1 2)],
           [CStr '''', CStr ''Smith, John'', CStr ''AL1'', CStr ''0'']])
     ''Smith, John''
   = Inr ([], [\<lparr>Date = CDatetime (midnight 2024 1 1), Original_Type = ''AL1'', Type = ''AL''\<rparr>])
   \<and> clean_leave_type code = filter (\<lambda>c. \<not> isspace c \<and> \<not> isdigit c) code"
  by (simp add: roster_eval)

theorem roster_scenario_witness:
  "extract_holidays
     (Inr [[CNaN, CStr ''Name'', CDatetime (midnight 2024 1 1), CDatetime (midnight 2024 1 2)],
           [CStr '''', CStr ''Smith, John'', CStr ''AL1'', CStr ''0'']])
     ''Smith, John''
   = Inr ([], [\<lparr>Date = CDatetime (midnight 2024 1 1), Original_Type = ''AL1'', Type = ''AL''\<rparr>])
   \<and> clean_leave_type ''Sick 2'' = ''Sick''"
  using roster_scenario [of CNaN "CStr ''Name''" "''Sick 2''"]
  by (simp add: isspace_def isdigit_def)

text \<open>
  What the loop does with a row whose cell in column 2 is an instance of
  \<open>datetime.datetime\<close>, a date or \<open>NaT\<close>: the entries stay as they are and the block
  becomes exactly the cells of that kind from column 2 on. The entries added after such
  a row and before the next one all carry a cell of it, and the rows before the first
  such row add nothing.
\<close>

lemma anchor_row_block:
  "(is_anchor row \<longrightarrow>
      (\<exists>blk'. process_row target_name (blk, booked) row = Inr (blk', booked) \<and>
         (\<forall>i c. map_of blk' i = Some c \<longleftrightarrow>
                 2 \<le> i \<and> i < length row \<and> is_datetime (row ! i) \<and> c = row ! i)))
   \<and> (is_anchor a \<and> (\<forall>r\<in>set post. \<not> is_anchor r) \<longrightarrow>
      (\<exists>before new.
         extract_holidays (Inr pre) target_name = Inr ([], before) \<and>
         extract_holidays (Inr (pre @ a # post)) target_name = Inr ([], before @ new) \<and>
         (\<forall>e\<in>set new. \<exists>i. 2 \<le> i \<and> i < length a \<and> is_datetime (a ! i) \<and> Date e = a ! i)))
   \<and> ((\<forall>r\<in>set pre. \<not> is_anchor r) \<longrightarrow>
      extract_holidays (Inr (pre @ rest)) target_name = extract_holidays (Inr rest) target_name)"
proof (intro conjI impI)
  assume anchor: "is_anchor row"
  have step: "process_row target_name (blk, booked) row
                = Inr (date_cells row [2..<length row], booked)"
    using anchor by (simp add: process_row_eq row_step_def is_anchor_def)
  have "\<forall>i c. map_of (date_cells row [2..<length row]) i = Some c \<longleftrightarrow>
          2 \<le> i \<and> i < length row \<and> is_datetime (row ! i) \<and> c = row ! i"
    by (auto simp: map_of_date_cells)
  with step show "\<exists>blk'. process_row target_name (blk, booked) row = Inr (blk', booked) \<and>
         (\<forall>i c. map_of blk' i = Some c \<longleftrightarrow>
                 2 \<le> i \<and> i < length row \<and> is_datetime (row ! i) \<and> c = row ! i)"
    by blast
next
  assume asm: "is_anchor a \<and> (\<forall>r\<in>set post. \<not> is_anchor r)"
  obtain blk0 before where pre: "foldl (row_step target_name) ([], []) pre = (blk0, before)"
    by (cases "foldl (row_step target_name) ([], []) pre")
  let ?blk = "date_cells a [2..<length a]"
  have a: "row_step target_name (blk0, before) a = (?blk, before)"
    using asm by (simp add: row_step_def is_anchor_def)
  from foldl_no_anchor [of post target_name ?blk before] asm
  obtain new where new: "foldl (row_step target_name) (?blk, before) post = (?blk, before @ new)"
    "set (map Date new) \<subseteq> snd ` set ?blk" by blast
  have dates: "\<forall>e\<in>set new. \<exists>i. 2 \<le> i \<and> i < length a \<and> is_datetime (a ! i) \<and> Date e = a ! i"
  proof
    fix e assume "e \<in> set new"
    with new(2) have "Date e \<in> snd ` set ?blk" by auto
    then show "\<exists>i. 2 \<le> i \<and> i < length a \<and> is_datetime (a ! i) \<and> Date e = a ! i"
      by (auto simp: date_cells_def)
  qed
  have "extract_holidays (Inr pre) target_name = Inr ([], before)"
    by (simp add: extract_holidays_eq pre)
  moreover have "extract_holidays (Inr (pre @ a # post)) target_name = Inr ([], before @ new)"
    by (simp add: extract_holidays_eq pre a new(1))
  ultimately show "\<exists>before new.
         extract_holidays (Inr pre) target_name = Inr ([], before) \<and>
         extract_holidays (Inr (pre @ a # post)) target_name = Inr ([], before @ new) \<and>
         (\<forall>e\<in>set new. \<exists>i. 2 \<le> i \<and> i < length a \<and> is_datetime (a ! i) \<and> Date e = a ! i)"
    using dates by blast
next
  assume "\<forall>r\<in>set pre. \<not> is_anchor r"
  from foldl_no_anchor [OF this, of target_name "[]" "[]"]
  have "foldl (row_step target_name) ([], []) pre = ([], [])"
    by auto
  then show "extract_holidays (Inr (pre @ rest)) target_name
               = extract_holidays (Inr rest) target_name"
    by (simp add: extract_holidays_eq)
qed

text \<open>
  Claim C2. A row opens a new block when its cell in column 2 holds a date, the block is
  the dates of that row from column 2 on, every entry carries a date of the latest such
  row, and an anchor row adds no entry. The code decides with
  \<open>isinstance(v, datetime.datetime)\<close>, which \<open>pandas.NaT\<close>, the empty cell of a column
  of dates, satisfies as well, and so it departs from the claim. In the first grid below
  column 2 holds a date in the anchor row and nothing in the row of Smith, John: that
  row is taken for an anchor row, the block of the two dates is replaced by the single
  column 2 with \<open>NaT\<close>, and the code \<open>AL\<close> booked for 2024-01-02 is lost. In the second
  grid the anchor row has an empty cell in column 3, which enters the block, and the
  entry made from that column is dated \<open>NaT\<close>.
\<close>

theorem blank_anchor_cell_opens_block:
  "extract_holidays
     (Inr [[CNaN, CNaN, CDatetime (midnight 2024 1 1), CDatetime (midnight 2024 1 2)],
           [CNaN, CStr ''Smith, John'', CNaT, CStr ''AL'']])
     ''Smith, John''
   = Inr ([], [])
   \<and> process_row ''Smith, John''
        ([(2, CDatetime (midnight 2024 1 1)), (3, CDatetime (midnight 2024 1 2))], [])
        [CNaN, CStr ''Smith, John'', CNaT, CStr ''AL'']
      = Inr ([(2, CNaT)], [])
   \<and> extract_holidays
        (Inr [[CNaN, CNaN, CDatetime (midnight 2024 1 1), CNaT],
              [CNaN, CStr ''Smith, John'', CStr ''AL'', CDatetime (midnight 2024 3 5)]])
        ''Smith, John''
      = Inr ([], [\<lparr>Date = CDatetime (midnight 2024 1 1), Original_Type = ''AL'', Type = ''AL''\<rparr>,
                  \<lparr>Date = CNaT, Original_Type = ''2024-03-05 00:00:00'', Type = ''--::''\<rparr>])"
  by (simp add: roster_eval str_datetime_def zero_pad_def str_nat.simps midnight_def)

text \<open>
  Claim C5, as the code has it. \<open>extract_holidays\<close> returns the entries in the order it
  met them, not sorted by date (the caller sorts them afterwards): the entries of the
  leading rows of a grid are a prefix of the entries of the whole grid, and what one row
  adds carries the dates of the active block in the column order of that block.
\<close>

theorem entries_in_insertion_order:
  "(\<exists>first. extract_holidays (Inr rows1) target_name = Inr ([], first) \<and>
      (\<exists>more. extract_holidays (Inr (rows1 @ rows2)) target_name = Inr ([], first @ more)))
   \<and> (\<exists>blk' new. process_row target_name (blk, booked) row = Inr (blk', booked @ new) \<and>
         subseq (map Date new) (map snd blk))"
proof
  obtain blk1 first where st: "foldl (row_step target_name) ([], []) rows1 = (blk1, first)"
    by (cases "foldl (row_step target_name) ([], []) rows1")
  from foldl_appends [of target_name blk1 first rows2]
  obtain more where "snd (foldl (row_step target_name) (blk1, first) rows2) = first @ more"
    by blast
  then show "\<exists>first. extract_holidays (Inr rows1) target_name = Inr ([], first) \<and>
      (\<exists>more. extract_holidays (Inr (rows1 @ rows2)) target_name = Inr ([], first @ more))"
    by (simp add: extract_holidays_eq st)
next
  from row_step_appends [of target_name blk booked row]
  obtain new where new: "snd (row_step target_name (blk, booked) row) = booked @ new"
    "subseq (map Date new) (map snd blk)" by blast
  have "process_row target_name (blk, booked) row
          = Inr (fst (row_step target_name (blk, booked) row), booked @ new)"
    using new(1) by (simp add: process_row_eq flip: new(1))
  with new(2) show "\<exists>blk' new. process_row target_name (blk, booked) row = Inr (blk', booked @ new) \<and>
         subseq (map Date new) (map snd blk)"
    by blast
qed

theorem entries_in_insertion_order_witness:
  "(\<exists>first. extract_holidays
        (Inr [[CNaN, CNaN, CDatetime (midnight 2024 1 8)],
              [CNaN, CStr ''Smith, John'', CStr ''AL'']])
        ''Smith, John'' = Inr ([], first) \<and>
      (\<exists>more. extract_holidays
          (Inr ([[CNaN, CNaN, CDatetime (midnight 2024 1 8)],
                 [CNaN, CStr ''Smith, John'', CStr ''AL'']] @
                [[CNaN, CNaN, CDatetime (midnight 2024 1 1)],
                 [CNaN, CStr ''Smith, John'', CStr ''AL'']]))
          ''Smith, John'' = Inr ([], first @ more)))
   \<and> (\<exists>blk' new.
         process_row ''Smith, John''
           ([(2, CDatetime (midnight 2024 1 8)), (3, CDatetime (midnight 2024 1 9))], [])
           [CNaN, CStr ''Smith, John'', CStr ''0'', CStr ''AL''] = Inr (blk', [] @ new) \<and>
         subseq (map Date new)
           (map snd [(2::nat, CDatetime (midnight 2024 1 8)), (3, CDatetime (midnight 2024 1 9))]))"
  by (rule entries_in_insertion_order)

text \<open>
  The claim as written fails on a roster whose later block holds the earlier week: the
  entry of 2024-01-08 comes before that of 2024-01-01.
\<close>

theorem entries_not_sorted_counterexample:
  "extract_holidays
     (Inr [[CNaN, CNaN, CDatetime (midnight 2024 1 8)],
           [CNaN, CStr ''Smith, John'', CStr ''AL''],
           [CNaN, CNaN, CDatetime (midnight 2024 1 1)],
           [CNaN, CStr ''Smith, John'', CStr ''AL'']])
     ''Smith, John''
   = Inr ([], [\<lparr>Date = CDatetime (midnight 2024 1 8), Original_Type = ''AL'', Type = ''AL''\<rparr>,
               \<lparr>Date = CDatetime (midnight 2024 1 1), Original_Type = ''AL'', Type = ''AL''\<rparr>])
   \<and> \<not> sorted_by_date
         [\<lparr>Date = CDatetime (midnight 2024 1 8), Original_Type = ''AL'', Type = ''AL''\<rparr>,
          \<lparr>Date = CDatetime (midnight 2024 1 1), Original_Type = ''AL'', Type = ''AL''\<rparr>]"
  by (simp add: roster_eval sorted_by_date_def datetime_le_def midnight_def)

text \<open>
  Claim C8. \<open>extract_holidays\<close> returns for every read result and every grid, ragged
  ones included: no error branch of the loops is ever taken. A row of fewer than three
  cells leaves the block and the entries as they are, and a column of the block that
  lies beyond the row is passed over.
\<close>

theorem extract_never_raises:
  "(\<exists>result. extract_holidays workbook target_name = Inr result)
   \<and> (length row < 3 \<longrightarrow> process_row target_name st row = Inr st)
   \<and> (length row \<le> col_idx \<longrightarrow>
        block_items row ((col_idx, date_val) # blk) booked = block_items row blk booked)"
proof (intro conjI impI)
  show "\<exists>result. extract_holidays workbook target_name = Inr result"
  proof (cases workbook)
    case (Inl e)
    then show ?thesis by (simp add: extract_holidays_def)
  next
    case (Inr rows)
    then show ?thesis by (simp add: extract_holidays_eq)
  qed
next
  assume "length row < 3"
  then show "process_row target_name st row = Inr st"
    by (simp add: process_row_eq row_step_def)
next
  assume "length row \<le> col_idx"
  then show "block_items row ((col_idx, date_val) # blk) booked = block_items row blk booked"
    by simp
qed

theorem extract_never_raises_witness:
  "length [CNaT, CNaT] < 3
   \<and> length [CNaN, CStr ''Smith, John'', CStr ''AL''] \<le> 3
   \<and> (\<exists>result. extract_holidays
         (Inr [[CNaT, CNaT],
               [CNaN, CNaN, CDatetime (midnight 2024 1 1), CDatetime (midnight 2024 1 2)],
               [CNaN, CStr ''Smith, John'', CStr ''AL'']])
         ''Smith, John'' = Inr result)
   \<and> process_row ''Smith, John'' ([(2, CDatetime (midnight 2024 1 1))], []) [CNaT, CNaT]
        = Inr ([(2, CDatetime (midnight 2024 1 1))], [])
   \<and> block_items [CNaN, CStr ''Smith, John'', CStr ''AL'']
        [(3, CDatetime (midnight 2024 1 2))] [] = Inr []"
proof -
  note inst = extract_never_raises [where row = "[CNaT, CNaT]"
      and st = "([(2, CDatetime (midnight 2024 1 1))], [])"
      and target_name = "''Smith, John''"
      and workbook = "Inr [[CNaT, CNaT],
               [CNaN, CNaN, CDatetime (midnight 2024 1 1), CDatetime (midnight 2024 1 2)],
               [CNaN, CStr ''Smith, John'', CStr ''AL'']]"]
  note inst2 = extract_never_raises [where row = "[CNaN, CStr ''Smith, John'', CStr ''AL'']"
      and col_idx = 3 and date_val = "CDatetime (midnight 2024 1 2)" and blk = "[]"
      and booked = "[]"]
  have h1: "length [CNaT, CNaT] < 3" by simp
  have h2: "length [CNaN, CStr ''Smith, John'', CStr ''AL''] \<le> 3" by simp
  from inst h1 have a: "process_row ''Smith, John'' ([(2, CDatetime (midnight 2024 1 1))], [])
      [CNaT, CNaT] = Inr ([(2, CDatetime (midnight 2024 1 1))], [])"
    by blast
  from inst2 h2 have b: "block_items [CNaN, CStr ''Smith, John'', CStr ''AL'']
        [(3, CDatetime (midnight 2024 1 2))] [] = Inr []"
    by simp
  from inst have c: "\<exists>result. extract_holidays
         (Inr [[CNaT, CNaT],
               [CNaN, CNaN, CDatetime (midnight 2024 1 1), CDatetime (midnight 2024 1 2)],
               [CNaN, CStr ''Smith, John'', CStr ''AL'']])
         ''Smith, John'' = Inr result"
    by blast
  from h1 h2 a b c show ?thesis
    by (intro conjI)
qed

section \<open>Facts about the calendar feed\<close>

lemma map_of_add_summary:
  "map_of (add_summary em d s) d' = (if d' = d then Some (put s (map_of em d)) else map_of em d')"
  by (cases "map_of em d") (auto simp: add_summary_def put_def update_conv')

lemma put_props: "put s b \<noteq> []" "set (put s b) = insert s (case b of None \<Rightarrow> {} | Some x \<Rightarrow> set x)"
  by (auto simp: put_def split: option.splits)

lemma distinct_put: "(\<And>x. b = Some x \<Longrightarrow> distinct x) \<Longrightarrow> distinct (put s b)"
  by (auto simp: put_def split: option.splits)

lemma keys_add_summary: "distinct (map fst em) \<Longrightarrow> distinct (map fst (add_summary em d s))"
  by (auto simp: add_summary_def distinct_update split: option.splits)

lemma tidy_add_summary: "tidy em \<Longrightarrow> tidy (add_summary em d s)"
  unfolding tidy_def
  by (auto simp: map_of_add_summary keys_add_summary put_props intro: distinct_put split: if_splits)

lemma day_loop_map_of:
  "day_loop s e c em = Inr em' \<Longrightarrow>
   map_of em' d = (if c \<le> d \<and> d < e then Some (put s (map_of em d)) else map_of em d)"
proof (induction s e c em rule: day_loop.induct)
  case (1 s e c em)
  show ?case
  proof (cases "c < e")
    case False
    with "1.prems" show ?thesis by (auto simp: day_loop.simps)
  next
    case True
    with "1.prems" have nxt: "add_one_day c = Inr (c + 1)"
      and run: "day_loop s e (c + 1) (add_summary em c s) = Inr em'"
      by (auto simp: day_loop.simps [of s e c em] add_one_day_def split: if_splits)
    from "1.IH" [OF True nxt run]
    have "map_of em' d = (if c + 1 \<le> d \<and> d < e then Some (put s (map_of (add_summary em c s) d))
                           else map_of (add_summary em c s) d)" .
    with True show ?thesis
      by (auto simp: map_of_add_summary)
  qed
qed

lemma day_loop_tidy: "day_loop s e c em = Inr em' \<Longrightarrow> tidy em \<Longrightarrow> tidy em'"
proof (induction s e c em rule: day_loop.induct)
  case (1 s e c em)
  show ?case
  proof (cases "c < e")
    case False
    with "1.prems" show ?thesis by (simp add: day_loop.simps)
  next
    case True
    with "1.prems" have nxt: "add_one_day c = Inr (c + 1)"
      and run: "day_loop s e (c + 1) (add_summary em c s) = Inr em'"
      by (auto simp: day_loop.simps [of s e c em] add_one_day_def split: if_splits)
    from "1.IH" [OF True nxt run] "1.prems"(2) show ?thesis
      by (simp add: tidy_add_summary)
  qed
qed

lemma process_event_Inr:
  "process_event em ev = Inr em' \<Longrightarrow>
   \<exists>s e. event_span ev = Inr (s, e) \<and> day_loop (event_summary ev) e s em = Inr em'"
  by (auto simp: process_event_def Let_def split: sum.splits)

lemma process_event_bucket:
  assumes "process_event em ev = Inr em'"
  shows "set (bucket em' d) = set (bucket em d) \<union> (if covers ev d then {event_summary ev} else {})"
proof -
  from process_event_Inr [OF assms] obtain s e where
    sp: "event_span ev = Inr (s, e)" and run: "day_loop (event_summary ev) e s em = Inr em'"
    by blast
  from day_loop_map_of [OF run, of d] sp show ?thesis
    by (auto simp: bucket_def covers_def put_props split: option.splits if_splits)
qed

lemma process_event_tidy: "process_event em ev = Inr em' \<Longrightarrow> tidy em \<Longrightarrow> tidy em'"
  using process_event_Inr day_loop_tidy by blast

lemma events_loop_spans:
  "events_loop em evs = Inr em' \<Longrightarrow> ev \<in> set evs \<Longrightarrow> \<exists>s e. event_span ev = Inr (s, e)"
proof (induction evs arbitrary: em)
  case Nil
  then show ?case by simp
next
  case (Cons x evs)
  from Cons.prems(1) obtain em1 where
    px: "process_event em x = Inr em1" and rest: "events_loop em1 evs = Inr em'"
    by (auto split: sum.splits)
  show ?case
  proof (cases "ev = x")
    case True
    with process_event_Inr [OF px] show ?thesis by blast
  next
    case False
    with Cons.prems(2) have "ev \<in> set evs" by simp
    from Cons.IH [OF rest this] show ?thesis .
  qed
qed

lemma events_loop_bucket:
  "events_loop em evs = Inr em' \<Longrightarrow>
   set (bucket em' d) = set (bucket em d) \<union> {event_summary ev | ev. ev \<in> set evs \<and> covers ev d}"
proof (induction evs arbitrary: em)
  case Nil
  then show ?case by simp
next
  case (Cons x evs)
  from Cons.prems obtain em1 where
    px: "process_event em x = Inr em1" and rest: "events_loop em1 evs = Inr em'"
    by (auto split: sum.splits)
  from Cons.IH [OF rest] process_event_bucket [OF px, of d] show ?case
    by auto
qed

lemma events_loop_tidy: "events_loop em evs = Inr em' \<Longrightarrow> tidy em \<Longrightarrow> tidy em'"
proof (induction evs arbitrary: em)
  case Nil
  then show ?case by simp
next
  case (Cons x evs)
  from Cons.prems(1) obtain em1 where
    px: "process_event em x = Inr em1" and rest: "events_loop em1 evs = Inr em'"
    by (auto split: sum.splits)
  from Cons.IH [OF rest] process_event_tidy [OF px] Cons.prems(2) show ?case
    by blast
qed

lemma tidy_empty: "tidy []"
  by (simp add: tidy_def)

lemma final_loop_map_of:
  "distinct (map fst em) \<Longrightarrow>
   map_of (final_loop em fm) d =
     (case map_of em d of None \<Rightarrow> map_of fm d | Some b \<Rightarrow> Some (display_text b))"
proof (induction em arbitrary: fm)
  case Nil
  show ?case by simp
next
  case (Cons p em)
  obtain k b where p: "p = (k, b)" by (cases p)
  from Cons.prems have k: "map_of em k = None" and dist: "distinct (map fst em)"
    by (auto simp: p map_of_eq_None_iff)
  from Cons.IH [OF dist, of "AList.update k (display_text b) fm"] k show ?case
    by (auto simp: p update_conv' split: option.splits)
qed

lemma str_contains_sublist: "str_contains sub s \<longleftrightarrow> sublist sub s"
  by (induction s) (auto simp: sublist_Cons_right)

lemma fetch_success:
  assumes "url \<noteq> []" and "load_events env url a b = Inr events"
    and "events_loop [] events = Inr em"
  shows "fetch_google_events env url a b = ([], final_loop em [])"
  using assms by (simp add: fetch_google_events_def fetch_body_def)

lemmas calendar_eval =
  fetch_google_events_def fetch_body_def load_events_def sample_feed_def raise_for_status_def
  meets_window_def event_span_def date_of_def days_before_year_def days_before_month_def
  is_leap_def process_event_def event_summary_def day_loop.simps add_one_day_def date_max_def
  add_summary_def display_text_def str_lower_def lower_char_def char_of_eq_iff eq_char_of_iff
  Let_def bucket_def covers_def

lemma event_span_Inr:
  "event_span ev = Inr (s, e) \<Longrightarrow>
   (\<exists>x. DTSTART ev = Some x \<and> s = to_date x) \<and>
   (DTEND ev = None \<longrightarrow> e = s + 1) \<and>
   (\<forall>y. DTEND ev = Some y \<longrightarrow> e = (if to_date y = s then s + 1 else to_date y))"
  by (auto simp: event_span_def Let_def add_one_day_def split: option.splits sum.splits if_splits)

lemma bucket_empty: "bucket [] d = []"
  by (simp add: bucket_def)

lemma display_text_alt:
  "display_text summary_list =
     (if \<exists>s\<in>set summary_list. sublist ''al ref'' (str_lower s)
      then str_join ''; '' (filter (\<lambda>s. sublist ''al ref'' (str_lower s)) summary_list)
      else str_join ''; '' summary_list)"
  by (simp add: display_text_def Let_def str_contains_sublist filter_empty_conv)

lemma display_text_shown:
  assumes "distinct b"
  shows "\<exists>shown. distinct shown \<and> set shown \<subseteq> set b \<and> display_text b = str_join ''; '' shown"
proof (cases "filter (\<lambda>s. str_contains ''al ref'' (str_lower s)) b = []")
  case True
  then have "display_text b = str_join ''; '' b"
    by (simp add: display_text_def)
  with assms show ?thesis by blast
next
  case False
  let ?f = "filter (\<lambda>s. str_contains ''al ref'' (str_lower s)) b"
  from False have "display_text b = str_join ''; '' ?f"
    by (simp add: display_text_def)
  moreover have "distinct ?f" "set ?f \<subseteq> set b"
    using assms by auto
  ultimately show ?thesis by blast
qed

text \<open>
  Claim C3. For every event of a run in which no event raises: its span starts at the
  date of \<open>DTSTART\<close>; the end is the start plus one day when there is no \<open>DTEND\<close>,
  and also when the date of \<open>DTEND\<close> equals the start, so that the event covers exactly
  that one day; otherwise the end is the date of \<open>DTEND\<close>. The summary is in the bucket
  of every day from the start up to, and without, the end; and a summary is in a day's
  bucket only if an event with that summary covers the day, so the end day gets nothing
  from this event.
\<close>

theorem event_days_covered:
  assumes "events_loop [] events = Inr events_map" and "ev \<in> set events"
  shows "\<exists>start_date end_date.
      event_span ev = Inr (start_date, end_date)
      \<and> (\<exists>x. DTSTART ev = Some x \<and> start_date = to_date x)
      \<and> (DTEND ev = None \<longrightarrow> end_date = start_date + 1)
      \<and> (\<forall>y. DTEND ev = Some y \<longrightarrow>
             end_date = (if to_date y = start_date then start_date + 1 else to_date y))
      \<and> (\<forall>d. start_date \<le> d \<and> d < end_date \<longrightarrow> event_summary ev \<in> set (bucket events_map d))
      \<and> (\<forall>d s. s \<in> set (bucket events_map d) \<longrightarrow>
             (\<exists>ev'\<in>set events. event_summary ev' = s \<and> covers ev' d))"
proof -
  from events_loop_spans [OF assms] obtain s e where sp: "event_span ev = Inr (s, e)"
    by blast
  note b = events_loop_bucket [OF assms(1)]
  have in_b: "\<forall>d. s \<le> d \<and> d < e \<longrightarrow> event_summary ev \<in> set (bucket events_map d)"
  proof (intro allI impI)
    fix d assume "s \<le> d \<and> d < e"
    with sp have "covers ev d" by (simp add: covers_def)
    with assms(2) have "event_summary ev \<in> {event_summary x | x. x \<in> set events \<and> covers x d}"
      by blast
    with b [of d] show "event_summary ev \<in> set (bucket events_map d)" by simp
  qed
  have only: "\<forall>d x. x \<in> set (bucket events_map d) \<longrightarrow>
             (\<exists>ev'\<in>set events. event_summary ev' = x \<and> covers ev' d)"
  proof (intro allI impI)
    fix d x assume "x \<in> set (bucket events_map d)"
    with b [of d] have "x \<in> {event_summary y | y. y \<in> set events \<and> covers y d}"
      by (simp add: bucket_empty)
    then show "\<exists>ev'\<in>set events. event_summary ev' = x \<and> covers ev' d"
      by blast
  qed
  from event_span_Inr [OF sp]
  have p1: "\<exists>x. DTSTART ev = Some x \<and> s = to_date x"
    and p2: "DTEND ev = None \<longrightarrow> e = s + 1"
    and p3: "\<forall>y. DTEND ev = Some y \<longrightarrow> e = (if to_date y = s then s + 1 else to_date y)"
    by simp_all
  show ?thesis
  proof (rule exI [of _ s], rule exI [of _ e], intro conjI)
    show "event_span ev = Inr (s, e)" by (rule sp)
    show "\<exists>x. DTSTART ev = Some x \<and> s = to_date x" by (rule p1)
    show "DTEND ev = None \<longrightarrow> e = s + 1" by (rule p2)
    show "\<forall>y. DTEND ev = Some y \<longrightarrow> e = (if to_date y = s then s + 1 else to_date y)"
      by (rule p3)
    show "\<forall>d. s \<le> d \<and> d < e \<longrightarrow> event_summary ev \<in> set (bucket events_map d)"
      by (rule in_b)
    show "\<forall>d x. x \<in> set (bucket events_map d) \<longrightarrow>
             (\<exists>ev'\<in>set events. event_summary ev' = x \<and> covers ev' d)"
      by (rule only)
  qed
qed

theorem event_days_covered_witness:
  "events_loop []
     [\<lparr>SUMMARY = Some ''Trip'', DTSTART = Some (DDate (date_of 2024 1 10)),
        DTEND = Some (DDate (date_of 2024 1 13))\<rparr>,
      \<lparr>SUMMARY = Some ''Dentist'', DTSTART = Some (DDatetime (date_of 2024 1 12) 32400000000),
        DTEND = Some (DDatetime (date_of 2024 1 12) 36000000000)\<rparr>]
   = Inr [(date_of 2024 1 10, [''Trip'']), (date_of 2024 1 11, [''Trip'']),
          (date_of 2024 1 12, [''Trip'', ''Dentist''])]
   \<and> event_span \<lparr>SUMMARY = Some ''Trip'', DTSTART = Some (DDate (date_of 2024 1 10)),
        DTEND = Some (DDate (date_of 2024 1 13))\<rparr> = Inr (date_of 2024 1 10, date_of 2024 1 13)
   \<and> event_span \<lparr>SUMMARY = Some ''Dentist'',
        DTSTART = Some (DDatetime (date_of 2024 1 12) 32400000000),
        DTEND = Some (DDatetime (date_of 2024 1 12) 36000000000)\<rparr>
       = Inr (date_of 2024 1 12, date_of 2024 1 12 + 1)
   \<and> ''Trip'' \<in> set (bucket [(date_of 2024 1 10, [''Trip'']), (date_of 2024 1 11, [''Trip'']),
          (date_of 2024 1 12, [''Trip'', ''Dentist''])] (date_of 2024 1 12))
   \<and> bucket [(date_of 2024 1 10, [''Trip'']), (date_of 2024 1 11, [''Trip'']),
          (date_of 2024 1 12, [''Trip'', ''Dentist''])] (date_of 2024 1 13) = []"
proof -
  let ?trip = "\<lparr>SUMMARY = Some ''Trip'', DTSTART = Some (DDate (date_of 2024 1 10)),
        DTEND = Some (DDate (date_of 2024 1 13))\<rparr>"
  let ?dentist = "\<lparr>SUMMARY = Some ''Dentist'',
        DTSTART = Some (DDatetime (date_of 2024 1 12) 32400000000),
        DTEND = Some (DDatetime (date_of 2024 1 12) 36000000000)\<rparr>"
  let ?em = "[(date_of 2024 1 10, [''Trip'']), (date_of 2024 1 11, [''Trip'']),
          (date_of 2024 1 12, [''Trip'', ''Dentist''])]"
  have h1: "events_loop [] [?trip, ?dentist] = Inr ?em"
    by (simp add: calendar_eval)
  have h2: "?trip \<in> set [?trip, ?dentist]"
    by simp
  have sp: "event_span ?trip = Inr (date_of 2024 1 10, date_of 2024 1 13)"
    by (simp add: calendar_eval)
  have sp2: "event_span ?dentist = Inr (date_of 2024 1 12, date_of 2024 1 12 + 1)"
    by (simp add: calendar_eval)
  from event_days_covered [OF h1 h2] sp
  have cov: "\<forall>d. date_of 2024 1 10 \<le> d \<and> d < date_of 2024 1 13 \<longrightarrow>
               event_summary ?trip \<in> set (bucket ?em d)"
    by simp
  have "date_of 2024 1 10 \<le> date_of 2024 1 12 \<and> date_of 2024 1 12 < date_of 2024 1 13"
    by (simp add: calendar_eval)
  with cov have "event_summary ?trip \<in> set (bucket ?em (date_of 2024 1 12))"
    by blast
  then have in12: "''Trip'' \<in> set (bucket ?em (date_of 2024 1 12))"
    by (simp add: event_summary_def)
  have out13: "bucket ?em (date_of 2024 1 13) = []"
    by (simp add: calendar_eval)
  from h1 sp sp2 in12 out13 show ?thesis
    by (intro conjI)
qed

text \<open>
  Claim C4. In the map that \<open>fetch_google_events\<close> returns, the text of a day is built
  from that day's bucket: if some summary of the bucket contains \<open>al ref\<close> once it is
  lower-cased, the text is the summaries that do, joined with \<open>"; "\<close>; otherwise it is
  all the summaries of the bucket joined with \<open>"; "\<close>. A day without a bucket has no
  text.
\<close>

theorem al_ref_filter:
  assumes "url \<noteq> []" and "load_events env url start_range end_range = Inr events"
    and "events_loop [] events = Inr events_map"
  shows "\<exists>final_map. fetch_google_events env url start_range end_range = ([], final_map) \<and>
     (\<forall>d. map_of final_map d =
        (case map_of events_map d of
           None \<Rightarrow> None
         | Some summary_list \<Rightarrow>
             Some (if \<exists>s\<in>set summary_list. sublist ''al ref'' (str_lower s)
                   then str_join ''; '' (filter (\<lambda>s. sublist ''al ref'' (str_lower s)) summary_list)
                   else str_join ''; '' summary_list)))"
proof -
  from events_loop_tidy [OF assms(3) tidy_empty] have "distinct (map fst events_map)"
    by (simp add: tidy_def)
  then have "\<forall>d. map_of (final_loop events_map []) d =
        (case map_of events_map d of
           None \<Rightarrow> None
         | Some summary_list \<Rightarrow>
             Some (if \<exists>s\<in>set summary_list. sublist ''al ref'' (str_lower s)
                   then str_join ''; '' (filter (\<lambda>s. sublist ''al ref'' (str_lower s)) summary_list)
                   else str_join ''; '' summary_list))"
    by (simp add: final_loop_map_of display_text_alt split: option.splits)
  with fetch_success [OF assms] show ?thesis
    by blast
qed

theorem al_ref_filter_witness:
  "''https://calendar.example/basic.ics'' \<noteq> []
   \<and> load_events
        (sample_feed
          [\<lparr>SUMMARY = Some ''AL REF 17'', DTSTART = Some (DDate (date_of 2024 1 10)), DTEND = None\<rparr>,
           \<lparr>SUMMARY = Some ''Lunch'', DTSTART = Some (DDate (date_of 2024 1 10)),
             DTEND = Some (DDate (date_of 2024 1 12))\<rparr>,
           \<lparr>SUMMARY = Some ''al ref 18'', DTSTART = Some (DDate (date_of 2024 1 10)), DTEND = None\<rparr>,
           \<lparr>SUMMARY = Some ''Dinner'', DTSTART = Some (DDate (date_of 2024 1 11)), DTEND = None\<rparr>])
        ''https://calendar.example/basic.ics'' (date_of 2024 1 1) (date_of 2024 1 31)
      = Inr [\<lparr>SUMMARY = Some ''AL REF 17'', DTSTART = Some (DDate (date_of 2024 1 10)), DTEND = None\<rparr>,
           \<lparr>SUMMARY = Some ''Lunch'', DTSTART = Some (DDate (date_of 2024 1 10)),
             DTEND = Some (DDate (date_of 2024 1 12))\<rparr>,
           \<lparr>SUMMARY = Some ''al ref 18'', DTSTART = Some (DDate (date_of 2024 1 10)), DTEND = None\<rparr>,
           \<lparr>SUMMARY = Some ''Dinner'', DTSTART = Some (DDate (date_of 2024 1 11)), DTEND = None\<rparr>]
   \<and> events_loop []
        [\<lparr>SUMMARY = Some ''AL REF 17'', DTSTART = Some (DDate (date_of 2024 1 10)), DTEND = None\<rparr>,
           \<lparr>SUMMARY = Some ''Lunch'', DTSTART = Some (DDate (date_of 2024 1 10)),
             DTEND = Some (DDate (date_of 2024 1 12))\<rparr>,
           \<lparr>SUMMARY = Some ''al ref 18'', DTSTART = Some (DDate (date_of 2024 1 10)), DTEND = None\<rparr>,
           \<lparr>SUMMARY = Some ''Dinner'', DTSTART = Some (DDate (date_of 2024 1 11)), DTEND = None\<rparr>]
      = Inr [(date_of 2024 1 10, [''AL REF 17'', ''Lunch'', ''al ref 18'']),
             (date_of 2024 1 11, [''Lunch'', ''Dinner''])]
   \<and> (\<exists>final_map.
        fetch_google_events
          (sample_feed
            [\<lparr>SUMMARY = Some ''AL REF 17'', DTSTART = Some (DDate (date_of 2024 1 10)), DTEND = None\<rparr>,
             \<lparr>SUMMARY = Some ''Lunch'', DTSTART = Some (DDate (date_of 2024 1 10)),
               DTEND = Some (DDate (date_of 2024 1 12))\<rparr>,
             \<lparr>SUMMARY = Some ''al ref 18'', DTSTART = Some (DDate (date_of 2024 1 10)), DTEND = None\<rparr>,
             \<lparr>SUMMARY = Some ''Dinner'', DTSTART = Some (DDate (date_of 2024 1 11)), DTEND = None\<rparr>])
          ''https://calendar.example/basic.ics'' (date_of 2024 1 1) (date_of 2024 1 31)
        = ([], final_map)
        \<and> map_of final_map (date_of 2024 1 10) = Some ''AL REF 17; al ref 18''
        \<and> map_of final_map (date_of 2024 1 11) = Some ''Lunch; Dinner''
        \<and> map_of final_map (date_of 2024 1 12) = None)"
proof -
  let ?evs = "[\<lparr>SUMMARY = Some ''AL REF 17'', DTSTART = Some (DDate (date_of 2024 1 10)), DTEND = None\<rparr>,
           \<lparr>SUMMARY = Some ''Lunch'', DTSTART = Some (DDate (date_of 2024 1 10)),
             DTEND = Some (DDate (date_of 2024 1 12))\<rparr>,
           \<lparr>SUMMARY = Some ''al ref 18'', DTSTART = Some (DDate (date_of 2024 1 10)), DTEND = None\<rparr>,
           \<lparr>SUMMARY = Some ''Dinner'', DTSTART = Some (DDate (date_of 2024 1 11)), DTEND = None\<rparr>]"
  let ?url = "''https://calendar.example/basic.ics''"
  let ?em = "[(date_of 2024 1 10, [''AL REF 17'', ''Lunch'', ''al ref 18'']),
             (date_of 2024 1 11, [''Lunch'', ''Dinner''])]"
  have h1: "?url \<noteq> []" by simp
  have h2: "load_events (sample_feed ?evs) ?url (date_of 2024 1 1) (date_of 2024 1 31) = Inr ?evs"
    by (simp add: calendar_eval)
  have h3: "events_loop [] ?evs = Inr ?em"
    by (simp add: calendar_eval)
  from al_ref_filter [OF h1 h2 h3] obtain final_map where
    f: "fetch_google_events (sample_feed ?evs) ?url (date_of 2024 1 1) (date_of 2024 1 31)
          = ([], final_map)"
    and m: "\<And>d. map_of final_map d =
        (case map_of ?em d of
           None \<Rightarrow> None
         | Some summary_list \<Rightarrow>
             Some (if \<exists>s\<in>set summary_list. sublist ''al ref'' (str_lower s)
                   then str_join ''; '' (filter (\<lambda>s. sublist ''al ref'' (str_lower s)) summary_list)
                   else str_join ''; '' summary_list))"
    by blast
  have m10: "map_of final_map (date_of 2024 1 10) = Some ''AL REF 17; al ref 18''"
    unfolding m by (simp add: calendar_eval flip: str_contains_sublist)
  have m11: "map_of final_map (date_of 2024 1 11) = Some ''Lunch; Dinner''"
    unfolding m by (simp add: calendar_eval flip: str_contains_sublist)
  have m12: "map_of final_map (date_of 2024 1 12) = None"
    unfolding m by (simp add: calendar_eval)
  from f m10 m11 m12 have
    "\<exists>final_map.
        fetch_google_events (sample_feed ?evs) ?url (date_of 2024 1 1) (date_of 2024 1 31)
        = ([], final_map)
        \<and> map_of final_map (date_of 2024 1 10) = Some ''AL REF 17; al ref 18''
        \<and> map_of final_map (date_of 2024 1 11) = Some ''Lunch; Dinner''
        \<and> map_of final_map (date_of 2024 1 12) = None"
    by blast
  with h1 h2 h3 show ?thesis
    by (intro conjI)
qed

text \<open>
  Claim C6, as the code has it. The window is only handed to the recurrence expansion;
  the days of the occurrences it returns are not clipped. Every key of the returned map
  is a day covered by a returned occurrence, and the keys lie within
  \<open>[start_range, end_range]\<close> when every returned occurrence starts on or after
  \<open>start_range\<close> and ends on or before the day after \<open>end_range\<close>.
\<close>

theorem keys_are_covered_days:
  assumes "url \<noteq> []" and "load_events env url start_range end_range = Inr events"
    and "d \<in> fst ` set (snd (fetch_google_events env url start_range end_range))"
  shows "(\<exists>ev\<in>set events. covers ev d)
     \<and> ((\<forall>ev\<in>set events. \<forall>s e. event_span ev = Inr (s, e) \<longrightarrow> start_range \<le> s \<and> e \<le> end_range + 1)
          \<longrightarrow> start_range \<le> d \<and> d \<le> end_range)"
proof -
  have cov: "\<exists>ev\<in>set events. covers ev d"
  proof (cases "events_loop [] events")
    case (Inl e)
    with assms show ?thesis
      by (simp add: fetch_google_events_def fetch_body_def)
  next
    case (Inr em)
    from events_loop_tidy [OF Inr tidy_empty] have t: "tidy em" .
    from fetch_success [OF assms(1,2) Inr] assms(3)
    have "d \<in> fst ` set (final_loop em [])" by simp
    then have "map_of (final_loop em []) d \<noteq> None"
      by (simp add: map_of_eq_None_iff)
    with t obtain b where b: "map_of em d = Some b"
      by (auto simp: final_loop_map_of tidy_def split: option.splits)
    with t have "b \<noteq> []" by (auto simp: tidy_def)
    with b have "set (bucket em d) \<noteq> {}" by (simp add: bucket_def)
    with events_loop_bucket [OF Inr, of d] show ?thesis
      by (auto simp: bucket_empty)
  qed
  have "start_range \<le> d \<and> d \<le> end_range"
    if w: "\<forall>ev\<in>set events. \<forall>s e. event_span ev = Inr (s, e) \<longrightarrow> start_range \<le> s \<and> e \<le> end_range + 1"
  proof -
    from cov obtain ev where ev: "ev \<in> set events" "covers ev d" by blast
    from ev(2) obtain s e where sp: "event_span ev = Inr (s, e)" "s \<le> d" "d < e"
      by (auto simp: covers_def split: sum.splits)
    from w ev(1) sp(1) have "start_range \<le> s \<and> e \<le> end_range + 1" by blast
    with sp(2,3) show ?thesis by simp
  qed
  with cov show ?thesis by blast
qed

text \<open>
  The claim as written fails for an occurrence that starts inside the window and ends
  after it: for the window from 2024-01-10 to 2024-01-12 and a conference from
  2024-01-11 to 2024-01-15 (end excluded), the days 2024-01-13 and 2024-01-14 are keys
  of the map, beyond the end of the window.
\<close>

theorem keys_outside_window_counterexample:
  "fetch_google_events
     (sample_feed
        [\<lparr>SUMMARY = Some ''Conference'', DTSTART = Some (DDate (date_of 2024 1 11)),
           DTEND = Some (DDate (date_of 2024 1 15))\<rparr>])
     ''https://calendar.example/basic.ics'' (date_of 2024 1 10) (date_of 2024 1 12)
   = ([], [(date_of 2024 1 11, ''Conference''), (date_of 2024 1 12, ''Conference''),
           (date_of 2024 1 13, ''Conference''), (date_of 2024 1 14, ''Conference'')])
   \<and> \<not> date_of 2024 1 14 \<le> date_of 2024 1 12"
  by (simp add: calendar_eval)

theorem keys_are_covered_days_witness:
  "''https://calendar.example/basic.ics'' \<noteq> []
   \<and> load_events
        (sample_feed
          [\<lparr>SUMMARY = Some ''Trip'', DTSTART = Some (DDate (date_of 2024 1 10)),
             DTEND = Some (DDate (date_of 2024 1 13))\<rparr>])
        ''https://calendar.example/basic.ics'' (date_of 2024 1 1) (date_of 2024 1 31)
      = Inr [\<lparr>SUMMARY = Some ''Trip'', DTSTART = Some (DDate (date_of 2024 1 10)),
               DTEND = Some (DDate (date_of 2024 1 13))\<rparr>]
   \<and> date_of 2024 1 11 \<in> fst ` set (snd (fetch_google_events
        (sample_feed
          [\<lparr>SUMMARY = Some ''Trip'', DTSTART = Some (DDate (date_of 2024 1 10)),
             DTEND = Some (DDate (date_of 2024 1 13))\<rparr>])
        ''https://calendar.example/basic.ics'' (date_of 2024 1 1) (date_of 2024 1 31)))
   \<and> event_span \<lparr>SUMMARY = Some ''Trip'', DTSTART = Some (DDate (date_of 2024 1 10)),
             DTEND = Some (DDate (date_of 2024 1 13))\<rparr>
       = Inr (date_of 2024 1 10, date_of 2024 1 13)
   \<and> date_of 2024 1 1 \<le> date_of 2024 1 10 \<and> date_of 2024 1 13 \<le> date_of 2024 1 31 + 1
   \<and> covers \<lparr>SUMMARY = Some ''Trip'', DTSTART = Some (DDate (date_of 2024 1 10)),
             DTEND = Some (DDate (date_of 2024 1 13))\<rparr> (date_of 2024 1 11)
   \<and> date_of 2024 1 1 \<le> date_of 2024 1 11 \<and> date_of 2024 1 11 \<le> date_of 2024 1 31"
proof -
  let ?trip = "\<lparr>SUMMARY = Some ''Trip'', DTSTART = Some (DDate (date_of 2024 1 10)),
             DTEND = Some (DDate (date_of 2024 1 13))\<rparr>"
  let ?url = "''https://calendar.example/basic.ics''"
  have h1: "?url \<noteq> []" by simp
  have h2: "load_events (sample_feed [?trip]) ?url (date_of 2024 1 1) (date_of 2024 1 31)
              = Inr [?trip]"
    by (simp add: calendar_eval)
  have h3: "date_of 2024 1 11 \<in> fst ` set (snd (fetch_google_events (sample_feed [?trip]) ?url
              (date_of 2024 1 1) (date_of 2024 1 31)))"
    by (simp add: calendar_eval)
  have sp: "event_span ?trip = Inr (date_of 2024 1 10, date_of 2024 1 13)"
    by (simp add: calendar_eval)
  have inside: "date_of 2024 1 1 \<le> date_of 2024 1 10"
    "date_of 2024 1 13 \<le> date_of 2024 1 31 + 1"
    by (simp_all add: calendar_eval)
  have h4: "\<forall>ev\<in>set [?trip]. \<forall>s e. event_span ev = Inr (s, e) \<longrightarrow>
              date_of 2024 1 1 \<le> s \<and> e \<le> date_of 2024 1 31 + 1"
    using sp inside by simp
  note inst = keys_are_covered_days [OF h1 h2 h3]
  from inst have "\<exists>ev\<in>set [?trip]. covers ev (date_of 2024 1 11)"
    by (rule conjunct1)
  then have c1: "covers ?trip (date_of 2024 1 11)"
    by simp
  from inst h4 have c2: "date_of 2024 1 1 \<le> date_of 2024 1 11 \<and> date_of 2024 1 11 \<le> date_of 2024 1 31"
    by blast
  from c2 have c3: "date_of 2024 1 1 \<le> date_of 2024 1 11" and c4: "date_of 2024 1 11 \<le> date_of 2024 1 31"
    by simp_all
  from h1 h2 h3 sp inside c1 c3 c4 show ?thesis
    by (intro conjI)
qed

text \<open>
  Claim C7. \<open>fetch_google_events\<close> has no exception in its result. With an empty URL
  it returns the empty map and no diagnostic. Whatever the body of the \<open>try\<close> raises is
  reported as one diagnostic, with the empty map: a failing request, a status from 400
  to 599, a parse error, a failing expansion, or an event whose span cannot be resolved,
  even when events before it have filled buckets. A run that reports a diagnostic
  returns the empty map.
\<close>

theorem fetch_never_raises:
  "(url = [] \<longrightarrow> fetch_google_events env url start_range end_range = ([], []))
   \<and> (url \<noteq> [] \<and> fetch_body env url start_range end_range = Inl e \<longrightarrow>
        fetch_google_events env url start_range end_range
          = ([St_error ''Could not load Google Calendar: '' e], []))
   \<and> (requests_get env url = Inl e \<longrightarrow> fetch_body env url start_range end_range = Inl e)
   \<and> (requests_get env url = Inr r \<and> 400 \<le> status_code r \<and> status_code r < 600 \<longrightarrow>
        fetch_body env url start_range end_range = Inl (HTTPError (status_code r)))
   \<and> (requests_get env url = Inr r \<and> raise_for_status r = Inr () \<and>
      from_ical env (content r) = Inl e \<longrightarrow>
        fetch_body env url start_range end_range = Inl e)
   \<and> (load_events env url start_range end_range = Inl e \<longrightarrow>
        fetch_body env url start_range end_range = Inl e)
   \<and> (load_events env url start_range end_range = Inr events \<and>
      ev \<in> set events \<and> event_span ev = Inl e \<longrightarrow>
        (\<exists>e'. fetch_body env url start_range end_range = Inl e'))
   \<and> (fst (fetch_google_events env url start_range end_range) = [] \<or>
      snd (fetch_google_events env url start_range end_range) = [])"
proof (intro conjI impI)
  assume "url = []"
  then show "fetch_google_events env url start_range end_range = ([], [])"
    by (simp add: fetch_google_events_def)
next
  assume "url \<noteq> [] \<and> fetch_body env url start_range end_range = Inl e"
  then show "fetch_google_events env url start_range end_range
          = ([St_error ''Could not load Google Calendar: '' e], [])"
    by (simp add: fetch_google_events_def)
next
  assume "requests_get env url = Inl e"
  then show "fetch_body env url start_range end_range = Inl e"
    by (simp add: fetch_body_def load_events_def)
next
  assume "requests_get env url = Inr r \<and> 400 \<le> status_code r \<and> status_code r < 600"
  then show "fetch_body env url start_range end_range = Inl (HTTPError (status_code r))"
    by (simp add: fetch_body_def load_events_def raise_for_status_def)
next
  assume "requests_get env url = Inr r \<and> raise_for_status r = Inr () \<and>
      from_ical env (content r) = Inl e"
  then show "fetch_body env url start_range end_range = Inl e"
    by (simp add: fetch_body_def load_events_def)
next
  assume "load_events env url start_range end_range = Inl e"
  then show "fetch_body env url start_range end_range = Inl e"
    by (simp add: fetch_body_def)
next
  assume "load_events env url start_range end_range = Inr events \<and>
      ev \<in> set events \<and> event_span ev = Inl e"
  then have l: "load_events env url start_range end_range = Inr events"
    and ev: "ev \<in> set events" "event_span ev = Inl e" by simp_all
  show "\<exists>e'. fetch_body env url start_range end_range = Inl e'"
  proof (cases "events_loop [] events")
    case (Inl x)
    with l show ?thesis by (simp add: fetch_body_def)
  next
    case (Inr em)
    from events_loop_spans [OF Inr ev(1)] ev(2) show ?thesis by simp
  qed
next
  show "fst (fetch_google_events env url start_range end_range) = [] \<or>
      snd (fetch_google_events env url start_range end_range) = []"
    by (cases "fetch_body env url start_range end_range")
       (simp_all add: fetch_google_events_def)
qed

theorem fetch_never_raises_witness:
  "fetch_google_events (sample_feed []) [] (date_of 2024 1 1) (date_of 2024 1 31) = ([], [])
   \<and> ''https://calendar.example/basic.ics'' \<noteq> []
   \<and> fetch_body
        (sample_feed
          [\<lparr>SUMMARY = Some ''Trip'', DTSTART = Some (DDate (date_of 2024 1 10)), DTEND = None\<rparr>,
           \<lparr>SUMMARY = Some ''Broken'', DTSTART = None, DTEND = None\<rparr>])
        ''https://calendar.example/basic.ics'' (date_of 2024 1 1) (date_of 2024 1 31)
      = Inl AttributeError
   \<and> fetch_google_events
        (sample_feed
          [\<lparr>SUMMARY = Some ''Trip'', DTSTART = Some (DDate (date_of 2024 1 10)), DTEND = None\<rparr>,
           \<lparr>SUMMARY = Some ''Broken'', DTSTART = None, DTEND = None\<rparr>])
        ''https://calendar.example/basic.ics'' (date_of 2024 1 1) (date_of 2024 1 31)
      = ([St_error ''Could not load Google Calendar: '' AttributeError], [])
   \<and> fetch_body
        \<lparr>requests_get = (\<lambda>url. Inl (Raised ''ConnectionError'')),
         from_ical = (\<lambda>text. Inr ()), between = (\<lambda>cal a b. Inr [])\<rparr>
        ''https://calendar.example/basic.ics'' (date_of 2024 1 1) (date_of 2024 1 31)
      = Inl (Raised ''ConnectionError'')
   \<and> fetch_body
        \<lparr>requests_get = (\<lambda>url. Inr \<lparr>status_code = 404, content = ''Not Found''\<rparr>),
         from_ical = (\<lambda>text. Inr ()), between = (\<lambda>cal a b. Inr [])\<rparr>
        ''https://calendar.example/basic.ics'' (date_of 2024 1 1) (date_of 2024 1 31)
      = Inl (HTTPError 404)
   \<and> fetch_body
        \<lparr>requests_get = (\<lambda>url. Inr \<lparr>status_code = 200, content = ''<html>''\<rparr>),
         from_ical = (\<lambda>text. Inl (Raised ''ValueError'')),
         between = (\<lambda>cal a b. Inr [])\<rparr>
        ''https://calendar.example/basic.ics'' (date_of 2024 1 1) (date_of 2024 1 31)
      = Inl (Raised ''ValueError'')
   \<and> fetch_body
        \<lparr>requests_get = (\<lambda>url. Inr \<lparr>status_code = 200, content = ''BEGIN:VCALENDAR''\<rparr>),
         from_ical = (\<lambda>text. Inr ()),
         between = (\<lambda>cal a b. Inl (Raised ''BadRuleStringFormat''))\<rparr>
        ''https://calendar.example/basic.ics'' (date_of 2024 1 1) (date_of 2024 1 31)
      = Inl (Raised ''BadRuleStringFormat'')"
proof -
  let ?url = "''https://calendar.example/basic.ics''"
  let ?a = "date_of 2024 1 1" and ?b = "date_of 2024 1 31"
  let ?trip = "\<lparr>SUMMARY = Some ''Trip'', DTSTART = Some (DDate (date_of 2024 1 10)), DTEND = None\<rparr>"
  let ?broken = "\<lparr>SUMMARY = Some ''Broken'', DTSTART = None, DTEND = None\<rparr>"
  let ?env1 = "sample_feed [?trip, ?broken]"
  let ?env2 = "\<lparr>requests_get = (\<lambda>url. Inl (Raised ''ConnectionError'')),
         from_ical = (\<lambda>text. Inr ()), between = (\<lambda>cal a b. Inr [])\<rparr>"
  let ?r3 = "\<lparr>status_code = 404, content = ''Not Found''\<rparr>"
  let ?env3 = "\<lparr>requests_get = (\<lambda>url. Inr ?r3),
         from_ical = (\<lambda>text. Inr ()), between = (\<lambda>cal a b. Inr [])\<rparr>"
  let ?r4 = "\<lparr>status_code = 200, content = ''<html>''\<rparr>"
  let ?env4 = "\<lparr>requests_get = (\<lambda>url. Inr ?r4),
         from_ical = (\<lambda>text. Inl (Raised ''ValueError'')),
         between = (\<lambda>cal a b. Inr [])\<rparr>"
  let ?env5 = "\<lparr>requests_get = (\<lambda>url. Inr \<lparr>status_code = 200, content = ''BEGIN:VCALENDAR''\<rparr>),
         from_ical = (\<lambda>text. Inr ()),
         between = (\<lambda>cal a b. Inl (Raised ''BadRuleStringFormat''))\<rparr>"
  have c0: "fetch_google_events (sample_feed []) [] ?a ?b = ([], [])"
    using fetch_never_raises [where url = "[]" and env = "sample_feed []"
        and start_range = ?a and end_range = ?b]
    by blast
  have h1: "?url \<noteq> []" by simp
  have b1: "fetch_body ?env1 ?url ?a ?b = Inl AttributeError"
    by (simp add: calendar_eval)
  from fetch_never_raises [where url = ?url and env = ?env1 and start_range = ?a
      and end_range = ?b and e = AttributeError] h1 b1
  have c1: "fetch_google_events ?env1 ?url ?a ?b
      = ([St_error ''Could not load Google Calendar: '' AttributeError], [])"
    by blast
  have g2: "requests_get ?env2 ?url = Inl (Raised ''ConnectionError'')" by simp
  from fetch_never_raises [where url = ?url and env = ?env2 and start_range = ?a
      and end_range = ?b and e = "Raised ''ConnectionError''"] g2
  have c2: "fetch_body ?env2 ?url ?a ?b = Inl (Raised ''ConnectionError'')"
    by blast
  have g3: "requests_get ?env3 ?url = Inr ?r3 \<and> 400 \<le> status_code ?r3 \<and> status_code ?r3 < 600"
    by simp
  from fetch_never_raises [where url = ?url and env = ?env3 and start_range = ?a
      and end_range = ?b and r = ?r3] g3
  have "fetch_body ?env3 ?url ?a ?b = Inl (HTTPError (status_code ?r3))"
    by blast
  then have c3: "fetch_body ?env3 ?url ?a ?b = Inl (HTTPError 404)"
    by simp
  have g4: "requests_get ?env4 ?url = Inr ?r4 \<and> raise_for_status ?r4 = Inr () \<and>
      from_ical ?env4 (content ?r4) = Inl (Raised ''ValueError'')"
    by (simp add: raise_for_status_def)
  from fetch_never_raises [where url = ?url and env = ?env4 and start_range = ?a
      and end_range = ?b and r = ?r4 and e = "Raised ''ValueError''"] g4
  have c4: "fetch_body ?env4 ?url ?a ?b = Inl (Raised ''ValueError'')"
    by blast
  have g5: "load_events ?env5 ?url ?a ?b = Inl (Raised ''BadRuleStringFormat'')"
    by (simp add: load_events_def raise_for_status_def)
  from fetch_never_raises [where url = ?url and env = ?env5 and start_range = ?a
      and end_range = ?b and e = "Raised ''BadRuleStringFormat''"] g5
  have c5: "fetch_body ?env5 ?url ?a ?b = Inl (Raised ''BadRuleStringFormat'')"
    by blast
  from c0 h1 b1 c1 c2 c3 c4 c5 show ?thesis
    by (intro conjI)
qed

text \<open>
  Claim C9. Offering a summary to a day whose bucket already holds that text leaves the
  map unchanged. So the bucket of every day holds no text twice, and the text shown for
  the day is the join of a list without repetitions taken from the bucket.
\<close>

theorem summaries_deduplicated:
  "(map_of events_map d = Some b \<and> summary \<in> set b \<longrightarrow>
      add_summary events_map d summary = events_map)
   \<and> (events_loop [] events = Inr em \<and> map_of em d = Some b' \<longrightarrow>
        distinct b' \<and>
        (\<exists>shown. distinct shown \<and> set shown \<subseteq> set b' \<and>
           map_of (final_loop em []) d = Some (str_join ''; '' shown)))"
proof (intro conjI impI)
  assume "map_of events_map d = Some b \<and> summary \<in> set b"
  then show "add_summary events_map d summary = events_map"
    by (simp add: add_summary_def)
next
  assume a: "events_loop [] events = Inr em \<and> map_of em d = Some b'"
  with events_loop_tidy [of "[]" events em] tidy_empty have t: "tidy em" by blast
  then have "\<forall>d b. map_of em d = Some b \<longrightarrow> b \<noteq> [] \<and> distinct b"
    by (simp add: tidy_def)
  with a show "distinct b'" by blast
next
  assume a: "events_loop [] events = Inr em \<and> map_of em d = Some b'"
  with events_loop_tidy [of "[]" events em] tidy_empty have t: "tidy em" by blast
  then have "\<forall>d b. map_of em d = Some b \<longrightarrow> b \<noteq> [] \<and> distinct b"
    by (simp add: tidy_def)
  with a have db: "distinct b'" by blast
  from t have dist: "distinct (map fst em)" by (simp add: tidy_def)
  from a have f: "map_of (final_loop em []) d = Some (display_text b')"
    by (simp add: final_loop_map_of [OF dist])
  from display_text_shown [OF db] f
  show "\<exists>shown. distinct shown \<and> set shown \<subseteq> set b' \<and>
           map_of (final_loop em []) d = Some (str_join ''; '' shown)"
    by auto
qed

theorem summaries_deduplicated_witness:
  "map_of [(date_of 2024 1 10, [''Standup''])] (date_of 2024 1 10) = Some [''Standup'']
   \<and> ''Standup'' \<in> set [''Standup'']
   \<and> add_summary [(date_of 2024 1 10, [''Standup''])] (date_of 2024 1 10) ''Standup''
       = [(date_of 2024 1 10, [''Standup''])]
   \<and> events_loop []
        [\<lparr>SUMMARY = Some ''Standup'', DTSTART = Some (DDate (date_of 2024 1 10)), DTEND = None\<rparr>,
         \<lparr>SUMMARY = Some ''Standup'', DTSTART = Some (DDate (date_of 2024 1 10)),
           DTEND = Some (DDate (date_of 2024 1 12))\<rparr>]
      = Inr [(date_of 2024 1 10, [''Standup'']), (date_of 2024 1 11, [''Standup''])]
   \<and> map_of [(date_of 2024 1 10, [''Standup'']), (date_of 2024 1 11, [''Standup''])]
        (date_of 2024 1 10) = Some [''Standup'']
   \<and> distinct [''Standup'']
   \<and> (\<exists>shown. distinct shown \<and> set shown \<subseteq> set [''Standup''] \<and>
         map_of (final_loop [(date_of 2024 1 10, [''Standup'']), (date_of 2024 1 11, [''Standup''])] [])
           (date_of 2024 1 10) = Some (str_join ''; '' shown))
   \<and> final_loop [(date_of 2024 1 10, [''Standup'']), (date_of 2024 1 11, [''Standup''])] []
       = [(date_of 2024 1 10, ''Standup''), (date_of 2024 1 11, ''Standup'')]"
proof -
  let ?evs = "[\<lparr>SUMMARY = Some ''Standup'', DTSTART = Some (DDate (date_of 2024 1 10)), DTEND = None\<rparr>,
         \<lparr>SUMMARY = Some ''Standup'', DTSTART = Some (DDate (date_of 2024 1 10)),
           DTEND = Some (DDate (date_of 2024 1 12))\<rparr>]"
  let ?em = "[(date_of 2024 1 10, [''Standup'']), (date_of 2024 1 11, [''Standup''])]"
  let ?m1 = "[(date_of 2024 1 10, [''Standup''])]"
  note inst = summaries_deduplicated [where events_map = ?m1 and d = "date_of 2024 1 10"
      and b = "[''Standup'']" and summary = "''Standup''" and events = ?evs and em = ?em
      and b' = "[''Standup'']"]
  have h1: "map_of ?m1 (date_of 2024 1 10) = Some [''Standup'']" by simp
  have h2: "''Standup'' \<in> set [''Standup'']" by simp
  have h3: "events_loop [] ?evs = Inr ?em"
    by (simp add: calendar_eval)
  have h4: "map_of ?em (date_of 2024 1 10) = Some [''Standup'']" by simp
  from inst h1 h2 have c1: "add_summary ?m1 (date_of 2024 1 10) ''Standup'' = ?m1"
    by blast
  from inst h3 h4 have c2: "distinct [''Standup'']"
    and c3: "\<exists>shown. distinct shown \<and> set shown \<subseteq> set [''Standup''] \<and>
         map_of (final_loop ?em []) (date_of 2024 1 10) = Some (str_join ''; '' shown)"
    by blast+
  have r: "final_loop ?em [] = [(date_of 2024 1 10, ''Standup''), (date_of 2024 1 11, ''Standup'')]"
    by (simp add: calendar_eval)
  from h1 h2 c1 h3 h4 c2 c3 r show ?thesis
    by (intro conjI)
qed







end
